theory Spec2Isabelle
  imports Main "HOL-Library.Sublist"
begin

section \<open>Python string primitives used by backend/app.py\<close>

text \<open>
  Python text is modelled as \<^typ>\<open>string\<close>. The primitives below follow CPython on ASCII
  text: \<open>str.lower\<close> maps \<open>A\<close>..\<open>Z\<close> to \<open>a\<close>..\<open>z\<close>, \<open>str.strip\<close> removes the ASCII
  white space characters (code points 9 to 13, 28 to 31 and 32) from both ends, and
  \<open>needle in haystack\<close> is the substring test. Characters above code point 127 are left
  unchanged and are not white space in this model.
\<close>

definition lower_char :: "char \<Rightarrow> char" where
  "lower_char c =
     (let n = (of_char c :: nat) in if 65 \<le> n \<and> n \<le> 90 then char_of (n + 32) else c)"

definition upper_char :: "char \<Rightarrow> char" where
  "upper_char c =
     (let n = (of_char c :: nat) in if 97 \<le> n \<and> n \<le> 122 then char_of (n - 32) else c)"

definition py_lower :: "string \<Rightarrow> string" where
  "py_lower s = map lower_char s"

definition py_isspace :: "char \<Rightarrow> bool" where
  "py_isspace c =
     (let n = (of_char c :: nat) in (9 \<le> n \<and> n \<le> 13) \<or> (28 \<le> n \<and> n \<le> 31) \<or> n = 32)"

definition py_strip :: "string \<Rightarrow> string" where
  "py_strip s = rev (dropWhile py_isspace (rev (dropWhile py_isspace s)))"

text \<open>\<open>str.capitalize\<close>: first character upper case, the rest lower case.\<close>

fun py_capitalize :: "string \<Rightarrow> string" where
  "py_capitalize [] = []"
| "py_capitalize (c # cs) = upper_char c # py_lower cs"

text \<open>\<open>needle in haystack\<close> for two strings.\<close>

fun py_in :: "string \<Rightarrow> string \<Rightarrow> bool" where
  "py_in needle [] = (needle = [])"
| "py_in needle (c # cs) = (prefix needle (c # cs) \<or> py_in needle cs)"

text \<open>
  \<open>repr\<close> of a string, as \<open>str(KeyError(k))\<close> prints its key: single quotes unless the
  string holds a single quote and no double quote; backslash and the chosen quote are
  escaped, tab, newline and carriage return are written \<open>\t\<close>, \<open>\n\<close>, \<open>\r\<close>, the other
  control characters as \<open>\xhh\<close>.
\<close>

definition hex_digit :: "nat \<Rightarrow> char" where
  "hex_digit n = (if n < 10 then char_of (48 + n) else char_of (87 + n))"

definition repr_char :: "char \<Rightarrow> char \<Rightarrow> string" where
  "repr_char quote c =
     (let n = (of_char c :: nat) in
      if c = quote \<or> c = CHR 0x5C then [CHR 0x5C, c]
      else if n = 9 then [CHR 0x5C, CHR ''t'']
      else if n = 10 then [CHR 0x5C, CHR ''n'']
      else if n = 13 then [CHR 0x5C, CHR ''r'']
      else if n < 32 \<or> n = 127 then [CHR 0x5C, CHR ''x'', hex_digit (n div 16), hex_digit (n mod 16)]
      else [c])"

definition py_repr :: "string \<Rightarrow> string" where
  "py_repr s =
     (let quote = (if CHR 0x27 \<in> set s \<and> CHR 0x22 \<notin> set s then CHR 0x22 else CHR 0x27)
      in [quote] @ concat (map (repr_char quote) s) @ [quote])"

text \<open>Decimal rendering of an integer, as an f-string prints it.\<close>

fun str_nat :: "nat \<Rightarrow> string" where
  "str_nat n = (if n < 10 then [char_of (48 + n)] else str_nat (n div 10) @ [char_of (48 + n mod 10)])"

definition str_int :: "int \<Rightarrow> string" where
  "str_int i = (if i < 0 then CHR ''-'' # str_nat (nat (- i)) else str_nat (nat i))"

section \<open>Exceptions and HTTP errors\<close>

text \<open>
  Instances of Python's \<open>Exception\<close>. \<open>str(e)\<close> is the \<open>repr\<close> of the key for a
  \<open>KeyError\<close> and the message for the others.
\<close>

datatype py_exception =
    KeyError string
  | TypeError string
  | OSError string
  | IntegrityError string
  | OverflowError string
  | RuntimeError string

fun py_str :: "py_exception \<Rightarrow> string" where
  "py_str (KeyError k) = py_repr k"
| "py_str (TypeError m) = m"
| "py_str (OSError m) = m"
| "py_str (IntegrityError m) = m"
| "py_str (OverflowError m) = m"
| "py_str (RuntimeError m) = m"

text \<open>
  What a request handler can end with instead of a response: an \<open>HTTPException\<close> raised
  by the handler (status code and detail), or any other exception, which the framework
  answers with status 500.
\<close>

datatype http_error = HTTPException nat string | Unhandled py_exception

fun status_code :: "http_error \<Rightarrow> nat" where
  "status_code (HTTPException code detail) = code"
| "status_code (Unhandled e) = 500"

definition is_client_error :: "http_error \<Rightarrow> bool" where
  "is_client_error e = (400 \<le> status_code e \<and> status_code e < 500)"

text \<open>Whether a request ended with a client error, a status from 400 to 499.\<close>

definition outcome_is_client_error :: "http_error + 'a \<Rightarrow> bool" where
  "outcome_is_client_error r = (case r of Inl e \<Rightarrow> is_client_error e | Inr x \<Rightarrow> False)"

section \<open>Configuration\<close>

definition UPLOAD_FOLDER :: string where
  "UPLOAD_FOLDER = ''uploads''"

record requirement =
  rtype :: string
  label :: string
  description :: string

definition IMAGE_REQUIREMENTS :: "requirement list" where
  "IMAGE_REQUIREMENTS =
     [\<lparr>rtype = ''front'', label = ''Front View'',
        description = ''Clear view of the front of the vehicle''\<rparr>,
      \<lparr>rtype = ''back'', label = ''Rear View'',
        description = ''Clear view of the rear of the vehicle''\<rparr>,
      \<lparr>rtype = ''left'', label = ''Left Side'',
        description = ''Side view showing the left side of the vehicle''\<rparr>,
      \<lparr>rtype = ''right'', label = ''Right Side'',
        description = ''Side view showing the right side of the vehicle''\<rparr>,
      \<lparr>rtype = ''engine'', label = ''Engine Bay'',
        description = ''Clear view of the engine compartment''\<rparr>,
      \<lparr>rtype = ''dashboard'', label = ''Dashboard'',
        description = ''Showing odometer reading''\<rparr>,
      \<lparr>rtype = ''vin'', label = ''VIN Plate'',
        description = ''Clear photo of the vehicle identification number''\<rparr>,
      \<lparr>rtype = ''registration'', label = ''Registration'',
        description = ''Current vehicle registration document''\<rparr>]"

section \<open>The validation classifier\<close>

definition prompts :: "(string \<times> string) list" where
  "prompts =
     [(''front'', ''Does this image clearly show the entire front of a vehicle? Check for: full view, no obstructions, good lighting.''),
      (''back'', ''Does this image clearly show the entire rear of a vehicle? Check for: full view, no obstructions, visible license plate.''),
      (''left'', ''Does this image show the complete left side of a vehicle? Check for: full side profile, no obstructions.''),
      (''right'', ''Does this image show the complete right side of a vehicle? Check for: full side profile, no obstructions.''),
      (''engine'', ''Does this image clearly show the engine compartment? Check for: clear view of engine components.''),
      (''dashboard'', ''Does this image show the vehicle dashboard with visible odometer reading? Check for: clear numbers.''),
      (''vin'', ''Does this image show a vehicle'' @ [CHR 0x27] @ ''s VIN plate with readable characters? Check for: all characters legible.''),
      (''registration'', ''Does this image show a current vehicle registration document? Check for: readable text, current dates.'')]"

record verdict =
  valid :: bool
  reason :: string

text \<open>
  The vision model is outside the repository. \<open>ollama_chat model prompt image\<close> stands
  for evaluating \<open>ollama.chat(model=..., messages=[...])['message']['content']\<close>: it
  either raises an exception (the call failed, or the response lacks the field) or
  yields the response text.
\<close>

type_synonym ollama_chat = "string \<Rightarrow> string \<Rightarrow> string \<Rightarrow> py_exception + string"

text \<open>Lines 135 to 140: the verdict computed from the response text.\<close>

definition classify_content :: "string \<Rightarrow> verdict" where
  "classify_content raw =
     (let content = py_strip (py_lower raw) in
      \<lparr>valid = (py_in ''yes'' content \<or> py_in ''valid'' content),
       reason = (if py_in ''no'' content \<or> py_in ''invalid'' content
                 then content else ''Valid image'')\<rparr>)"

text \<open>
  The body of the \<open>try\<close> block. The prompt lookup \<open>prompts[image_type]\<close> is evaluated
  inside it, so an unknown type raises \<open>KeyError\<close> there, before the model is called.
\<close>

definition validate_try :: "ollama_chat \<Rightarrow> string \<Rightarrow> string \<Rightarrow> py_exception + verdict" where
  "validate_try chat image_path image_type =
     (case map_of prompts image_type of
        None \<Rightarrow> Inl (KeyError image_type)
      | Some prompt \<Rightarrow>
          (case chat ''llava:latest'' prompt image_path of
             Inl e \<Rightarrow> Inl e
           | Inr text \<Rightarrow> Inr (classify_content text)))"

text \<open>
  \<open>validate_image_with_ai\<close> with its \<open>except Exception\<close> handler. The result is a sum so
  that an exception leaving the function would be a value \<open>Inl\<close>.
\<close>

definition validate_image_with_ai ::
  "ollama_chat \<Rightarrow> string \<Rightarrow> string \<Rightarrow> py_exception + verdict" where
  "validate_image_with_ai chat image_path image_type =
     (case validate_try chat image_path image_type of
        Inr v \<Rightarrow> Inr v
      | Inl e \<Rightarrow> Inr \<lparr>valid = False, reason = ''Validation error: '' @ py_str e\<rparr>)"

section \<open>Paths\<close>

text \<open>
  \<open>os.path\<close> on a POSIX system. \<open>rfind\<close> is \<open>str.rfind\<close> for one character: the index
  of its last occurrence, or -1.
\<close>

fun find_index :: "char \<Rightarrow> string \<Rightarrow> nat option" where
  "find_index c [] = None"
| "find_index c (x # xs) =
     (if x = c then Some 0 else (case find_index c xs of None \<Rightarrow> None | Some i \<Rightarrow> Some (Suc i)))"

definition rfind :: "char \<Rightarrow> string \<Rightarrow> int" where
  "rfind c s =
     (case find_index c (rev s) of None \<Rightarrow> - 1 | Some i \<Rightarrow> int (length s) - 1 - int i)"

text \<open>
  The loop of \<open>genericpath._splitext\<close> that skips leading dots: it answers whether some
  character between the last separator and the last dot is not a dot.
\<close>

function splitext_loop :: "string \<Rightarrow> nat \<Rightarrow> nat \<Rightarrow> bool" where
  "splitext_loop p filenameIndex dotIndex =
     (if filenameIndex < dotIndex
      then (if take 1 (drop filenameIndex p) \<noteq> ''.'' then True
            else splitext_loop p (Suc filenameIndex) dotIndex)
      else False)"
  by pat_completeness auto
termination
  by (relation "measure (\<lambda>(p, filenameIndex, dotIndex). dotIndex - filenameIndex)") auto

definition splitext :: "string \<Rightarrow> string \<times> string" where
  "splitext p =
     (let sepIndex = rfind CHR ''/'' p; dotIndex = rfind CHR ''.'' p in
      if dotIndex > sepIndex \<and> splitext_loop p (nat (sepIndex + 1)) (nat dotIndex)
      then (take (nat dotIndex) p, drop (nat dotIndex) p)
      else (p, []))"

text \<open>\<open>posixpath.join\<close> of two components.\<close>

definition path_join :: "string \<Rightarrow> string \<Rightarrow> string" where
  "path_join a b =
     (if prefix ''/'' b then b
      else if a = [] \<or> suffix ''/'' a then a @ b
      else a @ ''/'' @ b)"

section \<open>Persistent state\<close>

text \<open>
  The two tables the handlers touch, with the columns of \<open>init_db\<close>, the files on disk,
  the directories created, and a log of the calls of the classifier (image path and
  type). SQLite enforces the primary keys; it does not enforce the foreign keys, since
  the code never switches them on.
\<close>

record submission =
  s_id :: string
  s_user_id :: string
  s_vehicle_make :: string
  s_vehicle_model :: string
  s_vehicle_year :: int
  s_status :: string
  s_created_at :: string

record submission_image =
  i_id :: string
  i_submission_id :: string
  i_image_type :: string
  i_image_path :: string
  i_validation_result :: string
  i_validation_reason :: string

record world =
  files :: "string \<rightharpoonup> string"
  dirs :: "string set"
  submissions :: "submission list"
  submission_images :: "submission_image list"
  ai_calls :: "(string \<times> string) list"

definition initial_world :: world where
  "initial_world =
     \<lparr>files = Map.empty, dirs = {UPLOAD_FOLDER}, submissions = [], submission_images = [],
      ai_calls = []\<rparr>"

definition insert_submission :: "submission \<Rightarrow> world \<Rightarrow> py_exception + world" where
  "insert_submission row w =
     (if list_ex (\<lambda>r. s_id r = s_id row) (submissions w)
      then Inl (IntegrityError ''UNIQUE constraint failed: submissions.id'')
      else if s_vehicle_year row < - (2 ^ 63) \<or> 2 ^ 63 \<le> s_vehicle_year row
      then Inl (OverflowError ''Python int too large to convert to SQLite INTEGER'')
      else Inr (w\<lparr>submissions := submissions w @ [row]\<rparr>))"

definition insert_image :: "submission_image \<Rightarrow> world \<Rightarrow> py_exception + world" where
  "insert_image row w =
     (if list_ex (\<lambda>r. i_id r = i_id row) (submission_images w)
      then Inl (IntegrityError ''UNIQUE constraint failed: submission_images.id'')
      else Inr (w\<lparr>submission_images := submission_images w @ [row]\<rparr>))"

text \<open>\<open>SELECT COUNT(*) FROM submission_images WHERE submission_id = ?\<close>\<close>

definition count_images :: "string \<Rightarrow> world \<Rightarrow> nat" where
  "count_images submission_id w =
     length (filter (\<lambda>r. i_submission_id r = submission_id) (submission_images w))"

text \<open>\<open>UPDATE submissions SET status = 'complete' WHERE id = ?\<close>\<close>

definition set_complete :: "string \<Rightarrow> world \<Rightarrow> world" where
  "set_complete submission_id w =
     w\<lparr>submissions :=
         map (\<lambda>r. if s_id r = submission_id then r\<lparr>s_status := ''complete''\<rparr> else r)
           (submissions w)\<rparr>"

text \<open>
  Writing a file with \<open>open(path, "wb")\<close> and \<open>write\<close>. The outcome is given by the
  environment: the write succeeds, \<open>open\<close> fails and leaves the disk as it was, or
  \<open>write\<close> fails after \<open>open\<close> has truncated the file and some prefix of the bytes
  has been stored.
\<close>

datatype write_outcome = WriteOk | OpenError string | WriteError nat string

fun write_file :: "write_outcome \<Rightarrow> string \<Rightarrow> string \<Rightarrow> world \<Rightarrow> py_exception option \<times> world" where
  "write_file WriteOk path bytes w = (None, w\<lparr>files := (files w)(path \<mapsto> bytes)\<rparr>)"
| "write_file (OpenError m) path bytes w = (Some (OSError m), w)"
| "write_file (WriteError n m) path bytes w =
     (Some (OSError m), w\<lparr>files := (files w)(path \<mapsto> take n bytes)\<rparr>)"

section \<open>Requests and responses\<close>

record submission_create =
  vehicle_make :: string
  vehicle_model :: string
  vehicle_year :: int

record upload_file =
  filename :: string
  contents :: string

datatype response =
    SubmissionCreated string string "requirement list"
  | ImageUploaded string bool string string
  | FileResponse string string

section \<open>create_submission\<close>

text \<open>
  \<open>token\<close> is what \<open>Depends(oauth2_scheme)\<close> extracts: the bearer token of the request,
  or none, in which case the dependency raises status 401 before the handler runs.
  \<open>new_uuid\<close> and \<open>now\<close> are the values of \<open>str(uuid.uuid4())\<close> and
  \<open>datetime.now().isoformat()\<close>.
\<close>

definition create_submission ::
  "string \<Rightarrow> string \<Rightarrow> submission_create \<Rightarrow> string option \<Rightarrow> world
     \<Rightarrow> (http_error + response) \<times> world" where
  "create_submission new_uuid now data token w =
     (case token of
        None \<Rightarrow> (Inl (HTTPException 401 ''Not authenticated''), w)
      | Some tok \<Rightarrow>
          (let submission_id = new_uuid; created_at = now in
           case insert_submission
                  \<lparr>s_id = submission_id, s_user_id = tok,
                   s_vehicle_make = vehicle_make data, s_vehicle_model = vehicle_model data,
                   s_vehicle_year = vehicle_year data, s_status = ''pending'',
                   s_created_at = created_at\<rparr> w of
             Inl e \<Rightarrow> (Inl (Unhandled e), w)
           | Inr w' \<Rightarrow> (Inr (SubmissionCreated submission_id ''pending'' IMAGE_REQUIREMENTS), w')))"

section \<open>upload_image\<close>

text \<open>
  The environment of one upload: the value of \<open>str(uuid.uuid4())\<close>, the outcome of the
  file write, and the vision model.
\<close>

record upload_env =
  u_uuid :: string
  u_write :: write_outcome
  u_chat :: ollama_chat

text \<open>Lines 224 to 226: where the uploaded bytes are stored.\<close>

definition upload_filename :: "string \<Rightarrow> string \<Rightarrow> string \<Rightarrow> string" where
  "upload_filename submission_id image_type original =
     (let file_ext = snd (splitext original) in submission_id @ ''_'' @ image_type @ file_ext)"

definition upload_filepath :: "string \<Rightarrow> string \<Rightarrow> string \<Rightarrow> string" where
  "upload_filepath submission_id image_type original =
     path_join UPLOAD_FOLDER (upload_filename submission_id image_type original)"

text \<open>Lines 240 to 241: the row stored for an upload.\<close>

definition image_row :: "string \<Rightarrow> string \<Rightarrow> string \<Rightarrow> string \<Rightarrow> verdict \<Rightarrow> submission_image" where
  "image_row image_id submission_id image_type filepath validation =
     \<lparr>i_id = image_id, i_submission_id = submission_id,
      i_image_type = image_type, i_image_path = filepath,
      i_validation_result = (if valid validation then ''yes'' else ''no''),
      i_validation_reason = reason validation\<rparr>"

text \<open>Lines 244 to 252: the status is recomputed from the number of image rows.\<close>

definition recompute_status :: "string \<Rightarrow> world \<Rightarrow> world" where
  "recompute_status submission_id w =
     (if count_images submission_id w \<ge> length IMAGE_REQUIREMENTS
      then set_complete submission_id w else w)"

definition upload_image ::
  "upload_env \<Rightarrow> string \<Rightarrow> string \<Rightarrow> upload_file \<Rightarrow> world \<Rightarrow> (http_error + response) \<times> world" where
  "upload_image env submission_id image_type file w =
     (if \<not> list_ex (\<lambda>req. rtype req = image_type) IMAGE_REQUIREMENTS
      then (Inl (HTTPException 400 ''Invalid image type''), w)
      else
        (let filename = upload_filename submission_id image_type (filename file);
             filepath = path_join UPLOAD_FOLDER filename in
         case write_file (u_write env) filepath (contents file) w of
           (Some e, w1) \<Rightarrow> (Inl (Unhandled e), w1)
         | (None, w1) \<Rightarrow>
             (let w2 = w1\<lparr>ai_calls := ai_calls w1 @ [(filepath, image_type)]\<rparr> in
              case validate_image_with_ai (u_chat env) filepath image_type of
                Inl e \<Rightarrow> (Inl (Unhandled e), w2)
              | Inr validation \<Rightarrow>
                  (let image_id = u_uuid env in
                   case insert_image
                          (image_row image_id submission_id image_type filepath validation) w2 of
                     Inl e \<Rightarrow> (Inl (Unhandled e), w2)
                   | Inr w3 \<Rightarrow>
                       (let w4 = recompute_status submission_id w3
                        in (Inr (ImageUploaded image_id (valid validation) (reason validation)
                                   (''/uploads/'' @ filename)), w4))))))"

section \<open>generate_pdf_report and get_submission_report\<close>

text \<open>
  The canvas of the PDF library is a list of drawing commands; nothing reaches the disk
  before \<open>save\<close>. Coordinates are the integers the code computes from the letter page
  size, 612 by 792 points.
\<close>

datatype canvas_op =
    SetFont string nat
  | DrawString int int string
  | DrawImage string int int int int
  | ShowPage

definition letter_width :: int where
  "letter_width = 612"

definition letter_height :: int where
  "letter_height = 792"

text \<open>
  The environment of one report: which stored bytes the image reader can decode and draw,
  the bytes the PDF library produces for a canvas, and the outcome of writing them.
\<close>

record report_env =
  r_decodable :: "string \<Rightarrow> bool"
  r_render :: "canvas_op list \<Rightarrow> string"
  r_write :: write_outcome

definition image_drawable :: "report_env \<Rightarrow> world \<Rightarrow> string \<Rightarrow> bool" where
  "image_drawable env w path =
     (case files w path of None \<Rightarrow> False | Some bytes \<Rightarrow> r_decodable env bytes)"

text \<open>
  The loop over the image rows (lines 171 to 186). An image that cannot be read raises
  inside the \<open>try\<close> before anything is drawn, and the bare \<open>except\<close> skips it.
\<close>

fun draw_images ::
  "report_env \<Rightarrow> world \<Rightarrow> submission_image list \<Rightarrow> int \<Rightarrow> canvas_op list \<Rightarrow> canvas_op list" where
  "draw_images env w [] y_position c = c"
| "draw_images env w (img # images) y_position c =
     (let paged = y_position < 200;
          c1 = (if paged then c @ [ShowPage] else c);
          y1 = (if paged then letter_height - 72 else y_position)
      in if image_drawable env w (i_image_path img)
         then draw_images env w images (y1 - 180)
                (c1 @ [DrawImage (i_image_path img) 72 (y1 - 120) 200 150,
                       SetFont ''Helvetica-Bold'' 12,
                       DrawString 300 (y1 - 80) (py_capitalize (i_image_type img)),
                       SetFont ''Helvetica'' 10,
                       DrawString 300 (y1 - 100)
                         (''Status: '' @ (if i_validation_result img = ''yes''
                                          then ''Valid'' else ''Invalid'')),
                       DrawString 300 (y1 - 120) (''Notes: '' @ i_validation_reason img)])
         else draw_images env w images y1 c1)"

text \<open>
  \<open>fetchone\<close> gives \<open>None\<close> when no row matches; subscripting it at line 166 raises
  \<open>TypeError\<close> with the message below.
\<close>

definition NoneType_not_subscriptable :: string where
  "NoneType_not_subscriptable = [CHR 0x27] @ ''NoneType'' @ [CHR 0x27] @ '' object is not subscriptable''"

definition generate_pdf_report ::
  "report_env \<Rightarrow> string \<Rightarrow> world \<Rightarrow> (py_exception + string) \<times> world" where
  "generate_pdf_report env submission_id w =
     (let submission = find (\<lambda>r. s_id r = submission_id) (submissions w);
          images = filter (\<lambda>r. i_submission_id r = submission_id) (submission_images w);
          filename = ''reports/'' @ submission_id @ ''.pdf'';
          w1 = w\<lparr>dirs := insert ''reports'' (dirs w)\<rparr>;
          height = letter_height;
          c = [SetFont ''Helvetica-Bold'' 16,
               DrawString 72 (height - 72) ''Vehicle Insurance Inspection Report'',
               SetFont ''Helvetica'' 12,
               DrawString 72 (height - 100) (''Submission ID: '' @ submission_id)]
      in case submission of
           None \<Rightarrow> (Inl (TypeError NoneType_not_subscriptable), w1)
         | Some sub \<Rightarrow>
             (let c1 = c @ [DrawString 72 (height - 120)
                              (''Vehicle: '' @ str_int (s_vehicle_year sub) @ '' ''
                                 @ s_vehicle_make sub @ '' '' @ s_vehicle_model sub),
                            DrawString 72 (height - 140)
                              (''Submission Date: '' @ s_created_at sub)];
                  c2 = draw_images env w1 images (height - 180) c1
              in case write_file (r_write env) filename (r_render env c2) w1 of
                   (Some e, w2) \<Rightarrow> (Inl e, w2)
                 | (None, w2) \<Rightarrow> (Inr filename, w2)))"

definition get_submission_report ::
  "report_env \<Rightarrow> string \<Rightarrow> world \<Rightarrow> (http_error + response) \<times> world" where
  "get_submission_report env submission_id w =
     (case generate_pdf_report env submission_id w of
        (Inl e, w') \<Rightarrow> (Inl (Unhandled e), w')
      | (Inr pdf_path, w') \<Rightarrow>
          (Inr (FileResponse pdf_path (''insurance_report_'' @ submission_id @ ''.pdf'')), w'))"

section \<open>Runs of the service\<close>

text \<open>The requests the three endpoints accept, each with its environment.\<close>

datatype event =
    CreateSubmission string string submission_create "string option"
  | UploadImage upload_env string string upload_file
  | GetReport report_env string

fun step :: "event \<Rightarrow> world \<Rightarrow> (http_error + response) \<times> world" where
  "step (CreateSubmission new_uuid now data token) w = create_submission new_uuid now data token w"
| "step (UploadImage env submission_id image_type file) w =
     upload_image env submission_id image_type file w"
| "step (GetReport env submission_id) w = get_submission_report env submission_id w"

fun run :: "event list \<Rightarrow> world \<Rightarrow> world" where
  "run [] w = w"
| "run (e # es) w = run es (snd (step e w))"

text \<open>The status of the submission with a given id, if it has a row.\<close>

definition status_of :: "string \<Rightarrow> world \<Rightarrow> string option" where
  "status_of submission_id w =
     map_option s_status (find (\<lambda>r. s_id r = submission_id) (submissions w))"

text \<open>
  The property of the tables that every run from the empty database keeps: a submission
  marked \<open>complete\<close> has at least as many image rows as there are requirements.
\<close>

definition status_invariant :: "world \<Rightarrow> bool" where
  "status_invariant w =
     list_all (\<lambda>r. s_status r = ''complete'' \<longrightarrow>
                    length IMAGE_REQUIREMENTS \<le> count_images (s_id r) w)
       (submissions w)"

text \<open>
  The stronger property, with the equivalence, and the condition on a run under which it
  is kept: every submission is created under an id that no image row names yet.
\<close>

definition status_matches_count :: "world \<Rightarrow> bool" where
  "status_matches_count w =
     list_all (\<lambda>r. s_status r = ''complete'' \<longleftrightarrow>
                    length IMAGE_REQUIREMENTS \<le> count_images (s_id r) w)
       (submissions w)"

fun fresh_submission_ids :: "event list \<Rightarrow> world \<Rightarrow> bool" where
  "fresh_submission_ids [] w = True"
| "fresh_submission_ids (e # es) w =
     ((case e of
         CreateSubmission new_uuid now data token \<Rightarrow> count_images new_uuid w = 0
       | UploadImage env submission_id image_type file \<Rightarrow> True
       | GetReport env submission_id \<Rightarrow> True)
      \<and> fresh_submission_ids es (snd (step e w)))"

section \<open>Concrete environments\<close>

text \<open>
  Environments for running the handlers on concrete inputs: a vision model that answers
  with a fixed text, one that fails with a fixed exception, an upload whose file write
  succeeds, and a report whose images all decode.
\<close>

definition chat_says :: "string \<Rightarrow> ollama_chat" where
  "chat_says text model prompt image_path = Inr text"

definition chat_raises :: "py_exception \<Rightarrow> ollama_chat" where
  "chat_raises e model prompt image_path = Inl e"

definition env_says :: "string \<Rightarrow> string \<Rightarrow> upload_env" where
  "env_says new_uuid text = \<lparr>u_uuid = new_uuid, u_write = WriteOk, u_chat = chat_says text\<rparr>"

definition env_raises :: "string \<Rightarrow> py_exception \<Rightarrow> upload_env" where
  "env_raises new_uuid e = \<lparr>u_uuid = new_uuid, u_write = WriteOk, u_chat = chat_raises e\<rparr>"

definition env_disk_full :: "string \<Rightarrow> upload_env" where
  "env_disk_full new_uuid =
     \<lparr>u_uuid = new_uuid, u_write = WriteError 0 ''No space left on device'',
      u_chat = chat_says ''yes''\<rparr>"

definition render_none :: "canvas_op list \<Rightarrow> string" where
  "render_none c = []"

definition decode_all :: "string \<Rightarrow> bool" where
  "decode_all bytes = True"

definition report_env_ok :: report_env where
  "report_env_ok = \<lparr>r_decodable = decode_all, r_render = render_none, r_write = WriteOk\<rparr>"

definition corolla :: submission_create where
  "corolla = \<lparr>vehicle_make = ''Toyota'', vehicle_model = ''Corolla'', vehicle_year = 2020\<rparr>"

definition photo :: "string \<Rightarrow> string \<Rightarrow> upload_file" where
  "photo name bytes = \<lparr>filename = name, contents = bytes\<rparr>"

text \<open>
  A submission \<open>s1\<close> and uploads of a front photo for it while the vision model is
  unreachable, so that every image is recorded as invalid.
\<close>

definition create_s1 :: event where
  "create_s1 = CreateSubmission ''s1'' ''2024-01-01T00:00:00'' corolla (Some ''token'')"

definition front_upload :: "string \<Rightarrow> event" where
  "front_upload new_uuid =
     UploadImage (env_raises new_uuid (RuntimeError ''model not found'')) ''s1'' ''front''
       (photo ''front.jpg'' ''JPEG'')"

section \<open>Basic facts\<close>

lemma length_IMAGE_REQUIREMENTS: "length IMAGE_REQUIREMENTS = 8"
  by (simp add: IMAGE_REQUIREMENTS_def)

lemma known_type_iff:
  "list_ex (\<lambda>req. rtype req = t) IMAGE_REQUIREMENTS \<longleftrightarrow>
     t \<in> {''front'', ''back'', ''left'', ''right'', ''engine'', ''dashboard'', ''vin'',
          ''registration''}"
  by (auto simp: IMAGE_REQUIREMENTS_def)

lemma prompts_known:
  assumes "list_ex (\<lambda>req. rtype req = t) IMAGE_REQUIREMENTS"
  shows "\<exists>p. map_of prompts t = Some p"
proof -
  have "t \<in> fst ` set prompts"
    using assms unfolding known_type_iff by (auto simp: prompts_def)
  then show ?thesis by (metis map_of_eq_None_iff not_None_eq)
qed

lemma py_in_iff: "py_in n h \<longleftrightarrow> (\<exists>pre post. h = pre @ n @ post)"
proof (induction h)
  case Nil
  then show ?case by auto
next
  case (Cons c cs)
  show ?case
  proof
    assume "py_in n (c # cs)"
    then consider "prefix n (c # cs)" | "py_in n cs" by auto
    then show "\<exists>pre post. c # cs = pre @ n @ post"
    proof cases
      case 1
      then obtain post where "c # cs = n @ post" by (auto simp: prefix_def)
      then have "c # cs = [] @ n @ post" by simp
      then show ?thesis by blast
    next
      case 2
      then obtain pre post where "cs = pre @ n @ post" using Cons.IH by blast
      then have "c # cs = (c # pre) @ n @ post" by simp
      then show ?thesis by blast
    qed
  next
    assume "\<exists>pre post. c # cs = pre @ n @ post"
    then obtain pre post where e: "c # cs = pre @ n @ post" by blast
    show "py_in n (c # cs)"
    proof (cases pre)
      case Nil
      with e have "prefix n (c # cs)" by (auto simp: prefix_def)
      then show ?thesis by simp
    next
      case (Cons p ps)
      with e have "cs = ps @ n @ post" by simp
      then have "py_in n cs" using Cons.IH by blast
      then show ?thesis by simp
    qed
  qed
qed

lemma py_in_trans: "py_in a b \<Longrightarrow> py_in b c \<Longrightarrow> py_in a c"
proof -
  assume "py_in a b" "py_in b c"
  then obtain p1 q1 p2 q2 where "b = p1 @ a @ q1" "c = p2 @ b @ q2"
    unfolding py_in_iff by blast
  then have "c = (p2 @ p1) @ a @ (q1 @ q2)" by simp
  then show ?thesis unfolding py_in_iff by blast
qed

lemma valid_in_invalid: "py_in ''valid'' ''invalid''"
  by (simp add: prefix_def)

text \<open>\<open>strip\<close> only removes white space, and leaves none at either end.\<close>

lemma rev_dropWhile_split:
  "xs = rev (dropWhile P (rev xs)) @ rev (takeWhile P (rev xs))"
  by (metis rev_append rev_rev_ident takeWhile_dropWhile_id)

lemma py_strip_decomp:
  "\<exists>l r. s = l @ py_strip s @ r \<and> (\<forall>c \<in> set l. py_isspace c) \<and> (\<forall>c \<in> set r. py_isspace c)"
proof -
  let ?a = "takeWhile py_isspace s" and ?b = "dropWhile py_isspace s"
  let ?r = "rev (takeWhile py_isspace (rev ?b))"
  have 1: "s = ?a @ ?b" by simp
  have 2: "?b = py_strip s @ ?r"
    unfolding py_strip_def by (rule rev_dropWhile_split)
  have 3: "\<forall>c \<in> set ?a. py_isspace c" by (meson set_takeWhileD)
  have 4: "\<forall>c \<in> set ?r. py_isspace c" by (metis set_rev set_takeWhileD)
  have "s = ?a @ py_strip s @ ?r" using 1 2 by metis
  with 3 4 show ?thesis by blast
qed

lemma py_strip_ends:
  assumes "py_strip s \<noteq> []"
  shows "\<not> py_isspace (hd (py_strip s)) \<and> \<not> py_isspace (last (py_strip s))"
proof -
  let ?b = "dropWhile py_isspace s"
  let ?d = "dropWhile py_isspace (rev ?b)"
  have d: "?d \<noteq> []" using assms by (simp add: py_strip_def)
  then have l: "\<not> py_isspace (hd ?d)" by (rule hd_dropWhile)
  have "last (py_strip s) = hd ?d" using d by (simp add: py_strip_def last_rev)
  with l have A: "\<not> py_isspace (last (py_strip s))" by simp
  have b: "?b \<noteq> []"
  proof
    assume e: "?b = []"
    have "?d = []" unfolding e by simp
    with d show False by simp
  qed
  then have hb: "\<not> py_isspace (hd ?b)" by (rule hd_dropWhile)
  have r: "?b = py_strip s @ rev (takeWhile py_isspace (rev ?b))"
    unfolding py_strip_def by (rule rev_dropWhile_split)
  have "hd ?b = hd (py_strip s)" using r assms by (metis hd_append2)
  with hb A show ?thesis by simp
qed

lemma py_lower_length: "length (py_lower s) = length s"
  by (simp add: py_lower_def)

lemma lower_char_not_upper: "\<not> (65 \<le> (of_char (lower_char c) :: nat) \<and> (of_char (lower_char c) :: nat) \<le> 90)"
  by (auto simp: lower_char_def Let_def)

section \<open>Properties of the classifier\<close>

lemma validate_image_with_ai_total: "\<exists>v. validate_image_with_ai chat p t = Inr v"
  by (simp add: validate_image_with_ai_def split: sum.splits)

lemma validate_unknown_type:
  "map_of prompts image_type = None \<Longrightarrow>
     validate_image_with_ai chat image_path image_type =
       Inr \<lparr>valid = False, reason = ''Validation error: '' @ py_repr image_type\<rparr>"
  by (simp add: validate_image_with_ai_def validate_try_def)

lemma validate_response:
  "map_of prompts image_type = Some prompt \<Longrightarrow>
   chat ''llava:latest'' prompt image_path = Inr raw \<Longrightarrow>
     validate_image_with_ai chat image_path image_type = Inr (classify_content raw)"
  by (simp add: validate_image_with_ai_def validate_try_def)

text \<open>
  Claim C2. When the vision model answers with a text, the verdict is computed from the
  text lower-cased and stripped of surrounding white space: \<open>valid\<close> holds exactly when
  \<open>yes\<close> or \<open>valid\<close> occurs in it as a substring, so a text containing \<open>invalid\<close> is
  valid; \<open>reason\<close> is the whole normalized text when it contains \<open>no\<close> or \<open>invalid\<close>, and
  the literal \<open>Valid image\<close> otherwise.
\<close>

theorem classify_rule:
  assumes "map_of prompts image_type = Some prompt"
      and "chat ''llava:latest'' prompt image_path = Inr raw"
      and "content = py_strip (py_lower raw)"
  shows "\<exists>v. validate_image_with_ai chat image_path image_type = Inr v
           \<and> (valid v \<longleftrightarrow> (\<exists>pre post. content = pre @ ''yes'' @ post)
                           \<or> (\<exists>pre post. content = pre @ ''valid'' @ post))
           \<and> reason v = (if (\<exists>pre post. content = pre @ ''no'' @ post)
                              \<or> (\<exists>pre post. content = pre @ ''invalid'' @ post)
                           then content else ''Valid image'')
           \<and> ((\<exists>pre post. content = pre @ ''invalid'' @ post) \<longrightarrow> valid v)"
proof -
  let ?v = "classify_content raw"
  have r: "validate_image_with_ai chat image_path image_type = Inr ?v"
    using assms(1,2) by (rule validate_response)
  have v: "valid ?v \<longleftrightarrow> (\<exists>pre post. content = pre @ ''yes'' @ post)
                           \<or> (\<exists>pre post. content = pre @ ''valid'' @ post)"
    using assms(3) by (simp add: classify_content_def Let_def py_in_iff)
  have re: "reason ?v = (if (\<exists>pre post. content = pre @ ''no'' @ post)
                              \<or> (\<exists>pre post. content = pre @ ''invalid'' @ post)
                           then content else ''Valid image'')"
    using assms(3) by (simp add: classify_content_def Let_def py_in_iff)
  have inv: "(\<exists>pre post. content = pre @ ''invalid'' @ post) \<longrightarrow> valid ?v"
  proof
    assume "\<exists>pre post. content = pre @ ''invalid'' @ post"
    then have "py_in ''invalid'' content" by (simp add: py_in_iff)
    with valid_in_invalid have "py_in ''valid'' content" by (rule py_in_trans)
    then show "valid ?v" using assms(3) by (simp add: classify_content_def Let_def)
  qed
  from r v re inv show ?thesis by blast
qed

theorem classify_rule_witness:
  "validate_image_with_ai (chat_says ''  Invalid image '') ''uploads/s1_front.jpg'' ''front''
     = Inr \<lparr>valid = True, reason = ''invalid image''\<rparr>"
proof -
  have p: "map_of prompts ''front'' = Some ''Does this image clearly show the entire front of a vehicle? Check for: full view, no obstructions, good lighting.''"
    by (simp add: prompts_def)
  have c: "chat_says ''  Invalid image '' ''llava:latest'' ''Does this image clearly show the entire front of a vehicle? Check for: full view, no obstructions, good lighting.'' ''uploads/s1_front.jpg'' = Inr ''  Invalid image ''"
    by (simp add: chat_says_def)
  have n: "''invalid image'' = py_strip (py_lower ''  Invalid image '')"
    by code_simp
  have i: "\<exists>pre post. ''invalid image'' = pre @ ''invalid'' @ post"
  proof -
    have "''invalid image'' = [] @ ''invalid'' @ '' image''" by simp
    then show ?thesis by blast
  qed
  from classify_rule [of "''front''" _ "chat_says ''  Invalid image ''" "''uploads/s1_front.jpg''"
      "''  Invalid image ''" "''invalid image''", OF p c n] obtain v where
    v: "validate_image_with_ai (chat_says ''  Invalid image '') ''uploads/s1_front.jpg'' ''front'' = Inr v"
    and va: "(\<exists>pre post. ''invalid image'' = pre @ ''invalid'' @ post) \<longrightarrow> valid v"
    and re: "reason v = (if (\<exists>pre post. ''invalid image'' = pre @ ''no'' @ post)
                              \<or> (\<exists>pre post. ''invalid image'' = pre @ ''invalid'' @ post)
                           then ''invalid image'' else ''Valid image'')"
    by blast
  from va i have "valid v" by blast
  moreover from re i have "reason v = ''invalid image''" by simp
  ultimately have "v = \<lparr>valid = True, reason = ''invalid image''\<rparr>" by simp
  with v show ?thesis by simp
qed

text \<open>
  Claim C3. When the vision model call raises an exception, \<open>validate_image_with_ai\<close>
  catches it and returns the verdict with \<open>valid = False\<close> and the reason
  \<open>Validation error: \<close> followed by the message of the exception; the result is a
  verdict, not an exception.
\<close>

theorem validate_catches:
  assumes "map_of prompts image_type = Some prompt"
      and "chat ''llava:latest'' prompt image_path = Inl e"
  shows "validate_image_with_ai chat image_path image_type =
           Inr \<lparr>valid = False, reason = ''Validation error: '' @ py_str e\<rparr>"
  using assms by (simp add: validate_image_with_ai_def validate_try_def)

theorem validate_catches_witness:
  "validate_image_with_ai (chat_raises (RuntimeError ''connection refused''))
       ''uploads/s1_vin.png'' ''vin''
     = Inr \<lparr>valid = False, reason = ''Validation error: connection refused''\<rparr>"
proof -
  obtain p where p: "map_of prompts ''vin'' = Some p"
    by (simp add: prompts_def)
  have c: "chat_raises (RuntimeError ''connection refused'') ''llava:latest'' p ''uploads/s1_vin.png''
             = Inl (RuntimeError ''connection refused'')"
    by (simp add: chat_raises_def)
  show ?thesis
    using validate_catches [of "''vin''" p "chat_raises (RuntimeError ''connection refused'')"
        "''uploads/s1_vin.png''" "RuntimeError ''connection refused''"] p c
    by simp
qed


section \<open>Properties of upload_image\<close>

lemma no_row_iff: "\<not> list_ex (\<lambda>r. s_id r = sid) rows \<longleftrightarrow> find (\<lambda>r. s_id r = sid) rows = None"
  by (induction rows) auto

lemma set_complete_no_row:
  assumes "\<not> list_ex (\<lambda>r. s_id r = sid) (submissions w)"
  shows "set_complete sid w = w"
proof -
  have "map (\<lambda>r. if s_id r = sid then r\<lparr>s_status := ''complete''\<rparr> else r) (submissions w)
          = submissions w"
    using assms by (induction "submissions w") (auto simp: list_ex_iff map_idI)
  then show ?thesis by (simp add: set_complete_def)
qed

lemma recompute_status_no_row:
  "\<not> list_ex (\<lambda>r. s_id r = sid) (submissions w) \<Longrightarrow> recompute_status sid w = w"
  by (simp add: recompute_status_def set_complete_no_row)

lemma recompute_status_images [simp]:
  "submission_images (recompute_status sid w) = submission_images w"
  by (simp add: recompute_status_def set_complete_def)

lemma recompute_status_files [simp]: "files (recompute_status sid w) = files w"
  by (simp add: recompute_status_def set_complete_def)

lemma recompute_status_ai_calls [simp]: "ai_calls (recompute_status sid w) = ai_calls w"
  by (simp add: recompute_status_def set_complete_def)

lemma count_images_recompute [simp]:
  "count_images sid' (recompute_status sid w) = count_images sid' w"
  by (simp add: count_images_def)

lemma upload_image_success:
  assumes "list_ex (\<lambda>req. rtype req = image_type) IMAGE_REQUIREMENTS"
      and "u_write env = WriteOk"
      and "\<not> list_ex (\<lambda>r. i_id r = u_uuid env) (submission_images w)"
      and "validate_image_with_ai (u_chat env)
             (upload_filepath submission_id image_type (filename file)) image_type = Inr v"
  shows "upload_image env submission_id image_type file w =
           (Inr (ImageUploaded (u_uuid env) (valid v) (reason v)
                   (''/uploads/'' @ upload_filename submission_id image_type (filename file))),
            recompute_status submission_id
              (w\<lparr>files := (files w)(upload_filepath submission_id image_type (filename file)
                                      \<mapsto> contents file),
                 ai_calls := ai_calls w
                    @ [(upload_filepath submission_id image_type (filename file), image_type)],
                 submission_images := submission_images w
                    @ [image_row (u_uuid env) submission_id image_type
                         (upload_filepath submission_id image_type (filename file)) v]\<rparr>))"
  using assms
  by (simp add: upload_image_def upload_filepath_def Let_def insert_image_def image_row_def)

text \<open>
  Claim C4. An upload whose category is not one of the eight required types is rejected
  with status 400, a client error, and the state is left exactly as it was: no file
  written, no call of the classifier, no image row.
\<close>

theorem upload_unknown_category:
  assumes "image_type \<notin> {''front'', ''back'', ''left'', ''right'', ''engine'', ''dashboard'',
                           ''vin'', ''registration''}"
  shows "upload_image env submission_id image_type file w
           = (Inl (HTTPException 400 ''Invalid image type''), w)
         \<and> is_client_error (HTTPException 400 ''Invalid image type'')"
  using assms unfolding upload_image_def known_type_iff by (simp add: is_client_error_def)

theorem upload_unknown_category_witness:
  "upload_image (env_says ''u1'' ''yes'') ''s1'' ''windshield'' (photo ''w.jpg'' ''bytes'')
       initial_world
     = (Inl (HTTPException 400 ''Invalid image type''), initial_world)"
  using upload_unknown_category [of "''windshield''" "env_says ''u1'' ''yes''" "''s1''"
      "photo ''w.jpg'' ''bytes''" initial_world]
  by simp

text \<open>
  Claim C8. When the file write fails, the upload ends with the unhandled \<open>OSError\<close>: the
  classifier has not been called and both tables are as before.
\<close>

theorem upload_write_failure:
  assumes "image_type \<in> {''front'', ''back'', ''left'', ''right'', ''engine'', ''dashboard'',
                           ''vin'', ''registration''}"
      and "u_write env \<noteq> WriteOk"
  shows "\<exists>m w'. upload_image env submission_id image_type file w = (Inl (Unhandled (OSError m)), w')
           \<and> ai_calls w' = ai_calls w \<and> submission_images w' = submission_images w
           \<and> submissions w' = submissions w"
proof -
  have k: "list_ex (\<lambda>req. rtype req = image_type) IMAGE_REQUIREMENTS"
    using assms(1) by (simp only: known_type_iff)
  show ?thesis
    using k assms(2) by (cases "u_write env") (simp_all add: upload_image_def Let_def)
qed

theorem upload_write_failure_witness:
  "\<exists>m w'. upload_image (env_disk_full ''u1'') ''s1'' ''front'' (photo ''a.jpg'' ''AAA'') initial_world
             = (Inl (Unhandled (OSError m)), w')
        \<and> ai_calls w' = [] \<and> submission_images w' = [] \<and> submissions w' = []"
  using upload_write_failure [of "''front''" "env_disk_full ''u1''" "''s1''"
      "photo ''a.jpg'' ''AAA''" initial_world]
  by (simp add: env_disk_full_def initial_world_def)

text \<open>
  Claim C10. An upload for a submission id that has no row in \<open>submissions\<close> succeeds like
  any other: the file is stored, the classifier is called, an image row naming the
  missing submission is inserted, \<open>submissions\<close> is unchanged, and the caller gets the
  verdict.
\<close>

theorem upload_without_submission:
  assumes "\<not> list_ex (\<lambda>r. s_id r = submission_id) (submissions w)"
      and "image_type \<in> {''front'', ''back'', ''left'', ''right'', ''engine'', ''dashboard'',
                           ''vin'', ''registration''}"
      and "u_write env = WriteOk"
      and "\<not> list_ex (\<lambda>r. i_id r = u_uuid env) (submission_images w)"
      and "path = upload_filepath submission_id image_type (filename file)"
  shows "\<exists>v. validate_image_with_ai (u_chat env) path image_type = Inr v
           \<and> upload_image env submission_id image_type file w =
               (Inr (ImageUploaded (u_uuid env) (valid v) (reason v)
                       (''/uploads/'' @ upload_filename submission_id image_type (filename file))),
                w\<lparr>files := (files w)(path \<mapsto> contents file),
                  ai_calls := ai_calls w @ [(path, image_type)],
                  submission_images := submission_images w
                     @ [image_row (u_uuid env) submission_id image_type path v]\<rparr>)"
proof -
  obtain v where v: "validate_image_with_ai (u_chat env) path image_type = Inr v"
    using validate_image_with_ai_total by blast
  have k: "list_ex (\<lambda>req. rtype req = image_type) IMAGE_REQUIREMENTS"
    using assms(2) by (simp only: known_type_iff)
  let ?w3 = "w\<lparr>files := (files w)(path \<mapsto> contents file),
                  ai_calls := ai_calls w @ [(path, image_type)],
                  submission_images := submission_images w
                     @ [image_row (u_uuid env) submission_id image_type path v]\<rparr>"
  have "\<not> list_ex (\<lambda>r. s_id r = submission_id) (submissions ?w3)"
    using assms(1) by simp
  then have "recompute_status submission_id ?w3 = ?w3"
    by (rule recompute_status_no_row)
  with upload_image_success [OF k assms(3) assms(4) v [unfolded assms(5)]] v
  show ?thesis unfolding assms(5) by auto
qed

theorem upload_without_submission_witness:
  "\<exists>(v::verdict) w'. upload_image (env_says ''u1'' ''yes'') ''ghost'' ''front'' (photo ''a.jpg'' ''AAA'')
             initial_world
           = (Inr (ImageUploaded ''u1'' (valid v) (reason v) ''/uploads/ghost_front.jpg''), w')
        \<and> files w' ''uploads/ghost_front.jpg'' = Some ''AAA''
        \<and> ai_calls w' = [(''uploads/ghost_front.jpg'', ''front'')]
        \<and> map i_submission_id (submission_images w') = [''ghost'']
        \<and> submissions w' = []"
proof -
  let ?u = "upload_image (env_says ''u1'' ''yes'') ''ghost'' ''front'' (photo ''a.jpg'' ''AAA'')
              initial_world"
  have p: "upload_filepath ''ghost'' ''front'' (filename (photo ''a.jpg'' ''AAA''))
             = ''uploads/ghost_front.jpg''"
    by code_simp
  have f: "upload_filename ''ghost'' ''front'' ''a.jpg'' = ''ghost_front.jpg''"
    by code_simp
  have "\<exists>v. validate_image_with_ai (u_chat (env_says ''u1'' ''yes'')) ''uploads/ghost_front.jpg'' ''front'' = Inr v
           \<and> ?u =
               (Inr (ImageUploaded (u_uuid (env_says ''u1'' ''yes'')) (valid v) (reason v)
                       (''/uploads/'' @ upload_filename ''ghost'' ''front'' (filename (photo ''a.jpg'' ''AAA'')))),
                initial_world\<lparr>files := (files initial_world)(''uploads/ghost_front.jpg'' \<mapsto> contents (photo ''a.jpg'' ''AAA'')),
                  ai_calls := ai_calls initial_world @ [(''uploads/ghost_front.jpg'', ''front'')],
                  submission_images := submission_images initial_world
                     @ [image_row (u_uuid (env_says ''u1'' ''yes'')) ''ghost'' ''front'' ''uploads/ghost_front.jpg'' v]\<rparr>)"
    by (rule upload_without_submission)
       (simp_all add: initial_world_def env_says_def p)
  then obtain v where u: "?u =
               (Inr (ImageUploaded (u_uuid (env_says ''u1'' ''yes'')) (valid v) (reason v)
                       (''/uploads/'' @ upload_filename ''ghost'' ''front'' (filename (photo ''a.jpg'' ''AAA'')))),
                initial_world\<lparr>files := (files initial_world)(''uploads/ghost_front.jpg'' \<mapsto> contents (photo ''a.jpg'' ''AAA'')),
                  ai_calls := ai_calls initial_world @ [(''uploads/ghost_front.jpg'', ''front'')],
                  submission_images := submission_images initial_world
                     @ [image_row (u_uuid (env_says ''u1'' ''yes'')) ''ghost'' ''front'' ''uploads/ghost_front.jpg'' v]\<rparr>)"
    by blast
  have r: "?u = (Inr (ImageUploaded ''u1'' (valid v) (reason v) ''/uploads/ghost_front.jpg''), snd ?u)
        \<and> files (snd ?u) ''uploads/ghost_front.jpg'' = Some ''AAA''
        \<and> ai_calls (snd ?u) = [(''uploads/ghost_front.jpg'', ''front'')]
        \<and> map i_submission_id (submission_images (snd ?u)) = [''ghost'']
        \<and> submissions (snd ?u) = []"
    unfolding u by (simp add: f env_says_def initial_world_def photo_def image_row_def)
  show ?thesis by (rule exI [of _ v], rule exI [of _ "snd ?u"], rule r)
qed

text \<open>
  Claim C7. A successful upload always appends one new row with the new id, whatever rows
  the table already holds for the same submission and category: the earlier rows stay
  as they are, and both the number of rows of the submission and the number of rows of
  that submission and category grow by one.
\<close>

theorem upload_duplicate_appends:
  assumes "image_type \<in> {''front'', ''back'', ''left'', ''right'', ''engine'', ''dashboard'',
                           ''vin'', ''registration''}"
      and "u_write env = WriteOk"
      and "\<not> list_ex (\<lambda>r. i_id r = u_uuid env) (submission_images w)"
  shows "\<exists>v w'. upload_image env submission_id image_type file w =
               (Inr (ImageUploaded (u_uuid env) (valid v) (reason v)
                       (''/uploads/'' @ upload_filename submission_id image_type (filename file))),
                w')
           \<and> submission_images w' = submission_images w
                @ [image_row (u_uuid env) submission_id image_type
                     (upload_filepath submission_id image_type (filename file)) v]
           \<and> count_images submission_id w' = Suc (count_images submission_id w)
           \<and> length (filter (\<lambda>r. i_submission_id r = submission_id \<and> i_image_type r = image_type)
                        (submission_images w'))
               = Suc (length (filter (\<lambda>r. i_submission_id r = submission_id
                                          \<and> i_image_type r = image_type)
                                (submission_images w)))"
proof -
  let ?path = "upload_filepath submission_id image_type (filename file)"
  obtain v where v: "validate_image_with_ai (u_chat env) ?path image_type = Inr v"
    using validate_image_with_ai_total by blast
  have k: "list_ex (\<lambda>req. rtype req = image_type) IMAGE_REQUIREMENTS"
    using assms(1) by (simp only: known_type_iff)
  let ?w' = "snd (upload_image env submission_id image_type file w)"
  note u = upload_image_success [OF k assms(2) assms(3) v]
  have 1: "upload_image env submission_id image_type file w =
               (Inr (ImageUploaded (u_uuid env) (valid v) (reason v)
                       (''/uploads/'' @ upload_filename submission_id image_type (filename file))),
                ?w')"
    unfolding u by simp
  have 2: "submission_images ?w' = submission_images w
                @ [image_row (u_uuid env) submission_id image_type ?path v]"
    unfolding u by simp
  have 3: "count_images submission_id ?w' = Suc (count_images submission_id w)"
    unfolding count_images_def 2 by (simp add: image_row_def)
  have 4: "length (filter (\<lambda>r. i_submission_id r = submission_id \<and> i_image_type r = image_type)
                        (submission_images ?w'))
               = Suc (length (filter (\<lambda>r. i_submission_id r = submission_id
                                          \<and> i_image_type r = image_type)
                                (submission_images w)))"
    unfolding 2 by (simp add: image_row_def)
  from 1 2 3 4 show ?thesis by blast
qed

theorem upload_duplicate_appends_witness:
  "count_images ''s1''
     (run [UploadImage (env_says ''u1'' ''yes'') ''s1'' ''front'' (photo ''a.jpg'' ''AAA''),
           UploadImage (env_says ''u2'' ''no'') ''s1'' ''front'' (photo ''a.jpg'' ''BBB'')]
        initial_world) = 2"
proof -
  let ?e1 = "env_says ''u1'' ''yes''" and ?e2 = "env_says ''u2'' ''no''"
  let ?f1 = "photo ''a.jpg'' ''AAA''" and ?f2 = "photo ''a.jpg'' ''BBB''"
  let ?w1 = "snd (upload_image ?e1 ''s1'' ''front'' ?f1 initial_world)"
  let ?w2 = "snd (upload_image ?e2 ''s1'' ''front'' ?f2 ?w1)"
  have "\<exists>v w'. upload_image ?e1 ''s1'' ''front'' ?f1 initial_world =
               (Inr (ImageUploaded (u_uuid ?e1) (valid v) (reason v)
                       (''/uploads/'' @ upload_filename ''s1'' ''front'' (filename ?f1))), w')
           \<and> submission_images w' = submission_images initial_world
                @ [image_row (u_uuid ?e1) ''s1'' ''front''
                     (upload_filepath ''s1'' ''front'' (filename ?f1)) v]
           \<and> count_images ''s1'' w' = Suc (count_images ''s1'' initial_world)
           \<and> length (filter (\<lambda>r. i_submission_id r = ''s1'' \<and> i_image_type r = ''front'')
                        (submission_images w'))
               = Suc (length (filter (\<lambda>r. i_submission_id r = ''s1'' \<and> i_image_type r = ''front'')
                                (submission_images initial_world)))"
    by (rule upload_duplicate_appends) (simp_all add: env_says_def initial_world_def)
  then obtain v1 where
    i1: "submission_images ?w1 = submission_images initial_world
                @ [image_row (u_uuid ?e1) ''s1'' ''front''
                     (upload_filepath ''s1'' ''front'' (filename ?f1)) v1]"
    and c1: "count_images ''s1'' ?w1 = Suc (count_images ''s1'' initial_world)"
    by auto
  have fresh: "\<not> list_ex (\<lambda>r. i_id r = u_uuid ?e2) (submission_images ?w1)"
    unfolding i1 by (simp add: initial_world_def image_row_def env_says_def)
  have "\<exists>v w'. upload_image ?e2 ''s1'' ''front'' ?f2 ?w1 =
               (Inr (ImageUploaded (u_uuid ?e2) (valid v) (reason v)
                       (''/uploads/'' @ upload_filename ''s1'' ''front'' (filename ?f2))), w')
           \<and> submission_images w' = submission_images ?w1
                @ [image_row (u_uuid ?e2) ''s1'' ''front''
                     (upload_filepath ''s1'' ''front'' (filename ?f2)) v]
           \<and> count_images ''s1'' w' = Suc (count_images ''s1'' ?w1)
           \<and> length (filter (\<lambda>r. i_submission_id r = ''s1'' \<and> i_image_type r = ''front'')
                        (submission_images w'))
               = Suc (length (filter (\<lambda>r. i_submission_id r = ''s1'' \<and> i_image_type r = ''front'')
                                (submission_images ?w1)))"
    by (rule upload_duplicate_appends) (simp_all add: env_says_def fresh [simplified env_says_def, simplified])
  then have c2: "count_images ''s1'' ?w2 = Suc (count_images ''s1'' ?w1)"
    by auto
  have "count_images ''s1'' initial_world = 0"
    by (simp add: count_images_def initial_world_def)
  with c1 c2 show ?thesis by simp
qed

section \<open>Properties of get_submission_report\<close>

lemma generate_pdf_report_no_row:
  assumes "\<not> list_ex (\<lambda>r. s_id r = submission_id) (submissions w)"
  shows "generate_pdf_report env submission_id w =
           (Inl (TypeError NoneType_not_subscriptable), w\<lparr>dirs := insert ''reports'' (dirs w)\<rparr>)"
proof -
  have "find (\<lambda>r. s_id r = submission_id) (submissions w) = None"
    using assms by (simp add: no_row_iff)
  then show ?thesis
    by (simp add: generate_pdf_report_def Let_def)
qed

text \<open>
  Claim C5, as the code has it. A report requested for a submission id with no row ends
  with the \<open>TypeError\<close> raised when the missing row is subscripted; no handler catches
  it, so the caller gets status 500, which is not a client error. No report file is
  written and the tables are unchanged; only the \<open>reports\<close> directory is created.
\<close>

theorem report_missing_submission:
  assumes "\<not> list_ex (\<lambda>r. s_id r = submission_id) (submissions w)"
  shows "get_submission_report env submission_id w =
           (Inl (Unhandled (TypeError NoneType_not_subscriptable)),
            w\<lparr>dirs := insert ''reports'' (dirs w)\<rparr>)
         \<and> status_code (Unhandled (TypeError NoneType_not_subscriptable)) = 500
         \<and> \<not> outcome_is_client_error (fst (get_submission_report env submission_id w))"
  using generate_pdf_report_no_row [OF assms, of env]
  by (simp add: get_submission_report_def outcome_is_client_error_def is_client_error_def)

theorem report_missing_submission_witness:
  "get_submission_report report_env_ok ''s404'' initial_world =
     (Inl (Unhandled (TypeError NoneType_not_subscriptable)),
      initial_world\<lparr>dirs := insert ''reports'' (dirs initial_world)\<rparr>)"
  using report_missing_submission [of "''s404''" initial_world report_env_ok]
  by (simp add: initial_world_def)

text \<open>
  The claim as the specification states it fails: on the empty database the request for
  the report of \<open>s404\<close> does not end with a client error.
\<close>

theorem report_not_found_counterexample:
  "\<not> outcome_is_client_error (fst (get_submission_report report_env_ok ''s404'' initial_world))"
  by (simp add: get_submission_report_def generate_pdf_report_def Let_def initial_world_def
      outcome_is_client_error_def is_client_error_def)

section \<open>Runs: how the tables evolve\<close>

lemma upload_image_InrD:
  assumes "upload_image env sid t file w = (Inr r, w')"
  shows "list_ex (\<lambda>req. rtype req = t) IMAGE_REQUIREMENTS"
    and "u_write env = WriteOk"
    and "\<not> list_ex (\<lambda>r. i_id r = u_uuid env) (submission_images w)"
    and "\<exists>v. w' = recompute_status sid
              (w\<lparr>files := (files w)(upload_filepath sid t (filename file) \<mapsto> contents file),
                 ai_calls := ai_calls w @ [(upload_filepath sid t (filename file), t)],
                 submission_images := submission_images w
                    @ [image_row (u_uuid env) sid t (upload_filepath sid t (filename file)) v]\<rparr>)"
proof -
  show k: "list_ex (\<lambda>req. rtype req = t) IMAGE_REQUIREMENTS"
    using assms by (simp add: upload_image_def split: if_splits)
  show wr: "u_write env = WriteOk"
    using assms k by (cases "u_write env") (auto simp: upload_image_def Let_def)
  obtain v where v: "validate_image_with_ai (u_chat env) (upload_filepath sid t (filename file)) t = Inr v"
    using validate_image_with_ai_total by blast
  show fr: "\<not> list_ex (\<lambda>r. i_id r = u_uuid env) (submission_images w)"
  proof
    assume "list_ex (\<lambda>r. i_id r = u_uuid env) (submission_images w)"
    then have "fst (upload_image env sid t file w) =
                 Inl (Unhandled (IntegrityError ''UNIQUE constraint failed: submission_images.id''))"
      using k wr v
      by (simp add: upload_image_def upload_filepath_def Let_def insert_image_def image_row_def)
    with assms show False by simp
  qed
  from upload_image_success [OF k wr fr v] assms
  show "\<exists>v. w' = recompute_status sid
              (w\<lparr>files := (files w)(upload_filepath sid t (filename file) \<mapsto> contents file),
                 ai_calls := ai_calls w @ [(upload_filepath sid t (filename file), t)],
                 submission_images := submission_images w
                    @ [image_row (u_uuid env) sid t (upload_filepath sid t (filename file)) v]\<rparr>)"
    by auto
qed

lemma upload_image_tables:
  assumes w'_def: "w' = snd (upload_image env sid t file w)"
  shows "(submissions w' = submissions w \<and> submission_images w' = submission_images w)
       \<or> (\<exists>row. i_submission_id row = sid \<and> i_id row = u_uuid env
             \<and> submission_images w' = submission_images w @ [row]
             \<and> submissions w' = submissions (recompute_status sid
                   (w\<lparr>submission_images := submission_images w @ [row]\<rparr>)))"
proof (cases "fst (upload_image env sid t file w)")
  case (Inl e)
  have "submissions w' = submissions w \<and> submission_images w' = submission_images w"
    using Inl unfolding w'_def upload_image_def Let_def
    by (cases "u_write env")
       (auto simp: insert_image_def split: if_splits sum.splits prod.splits option.splits)
  then show ?thesis by blast
next
  case (Inr r)
  then have "upload_image env sid t file w = (Inr r, w')"
    by (simp add: w'_def prod_eq_iff)
  from upload_image_InrD(4) [OF this] obtain v where
    w': "w' = recompute_status sid
              (w\<lparr>files := (files w)(upload_filepath sid t (filename file) \<mapsto> contents file),
                 ai_calls := ai_calls w @ [(upload_filepath sid t (filename file), t)],
                 submission_images := submission_images w
                    @ [image_row (u_uuid env) sid t (upload_filepath sid t (filename file)) v]\<rparr>)"
    by blast
  let ?row = "image_row (u_uuid env) sid t (upload_filepath sid t (filename file)) v"
  have "i_submission_id ?row = sid" "i_id ?row = u_uuid env"
    by (simp_all add: image_row_def)
  moreover have "submission_images w' = submission_images w @ [?row]"
    unfolding w' by simp
  moreover have "submissions w' = submissions (recompute_status sid
                   (w\<lparr>submission_images := submission_images w @ [?row]\<rparr>))"
    unfolding w' by (simp add: recompute_status_def set_complete_def count_images_def)
  ultimately show ?thesis by blast
qed

lemma create_submission_tables:
  assumes w'_def: "w' = snd (create_submission new_uuid now data token w)"
  shows "(submissions w' = submissions w \<and> submission_images w' = submission_images w)
       \<or> (\<exists>row. s_status row = ''pending''
             \<and> \<not> list_ex (\<lambda>r. s_id r = s_id row) (submissions w)
             \<and> submissions w' = submissions w @ [row]
             \<and> submission_images w' = submission_images w)"
  unfolding w'_def create_submission_def insert_submission_def Let_def
  by (auto split: option.splits)

lemma get_submission_report_tables:
  "submissions (snd (get_submission_report env sid w)) = submissions w
   \<and> submission_images (snd (get_submission_report env sid w)) = submission_images w"
  unfolding get_submission_report_def generate_pdf_report_def Let_def
  by (cases "r_write env") (auto split: option.splits)

text \<open>The three ways one request can change the two tables.\<close>

lemma step_tables:
  assumes w'_def: "w' = snd (step e w)"
  obtains (unchanged) "submissions w' = submissions w" "submission_images w' = submission_images w"
  | (created) row where "s_status row = ''pending''"
      "\<not> list_ex (\<lambda>r. s_id r = s_id row) (submissions w)"
      "submissions w' = submissions w @ [row]" "submission_images w' = submission_images w"
  | (uploaded) row where "submission_images w' = submission_images w @ [row]"
      "submissions w' = submissions (recompute_status (i_submission_id row)
                   (w\<lparr>submission_images := submission_images w @ [row]\<rparr>))"
proof (cases e)
  case (CreateSubmission new_uuid now data token)
  then show ?thesis
    using create_submission_tables [of w' new_uuid now data token w] unchanged created
    unfolding w'_def by auto
next
  case (UploadImage env sid t f)
  then show ?thesis
    using upload_image_tables [of w' env sid t f w] unchanged uploaded
    unfolding w'_def by auto
next
  case (GetReport env sid)
  then show ?thesis
    using get_submission_report_tables [of env sid w] unchanged
    unfolding w'_def by auto
qed

lemma step_images_grow: "prefix (submission_images w) (submission_images (snd (step e w)))"
  by (rule step_tables [OF refl, of e w]) simp_all

lemma run_images_grow: "prefix (submission_images w) (submission_images (run es w))"
proof (induction es arbitrary: w)
  case Nil
  then show ?case by simp
next
  case (Cons e es)
  have "prefix (submission_images w) (submission_images (snd (step e w)))"
    by (rule step_images_grow)
  also have "prefix \<dots> (submission_images (run es (snd (step e w))))"
    by (rule Cons.IH)
  finally show ?case by simp
qed

section \<open>The status of a submission\<close>

lemma find_id_append:
  "find (\<lambda>r. s_id r = sid) (rows @ [row]) =
     (case find (\<lambda>r. s_id r = sid) rows of
        Some r \<Rightarrow> Some r
      | None \<Rightarrow> if s_id row = sid then Some row else None)"
  by (induction rows) auto

lemma find_id_map_complete:
  "find (\<lambda>r. s_id r = sid) (map (\<lambda>r. if s_id r = sid' then r\<lparr>s_status := ''complete''\<rparr> else r) rows)
     = map_option (\<lambda>r. if s_id r = sid' then r\<lparr>s_status := ''complete''\<rparr> else r)
         (find (\<lambda>r. s_id r = sid) rows)"
  by (induction rows) auto

lemma find_id_SomeD: "find (\<lambda>r. s_id r = sid) rows = Some x \<Longrightarrow> s_id x = sid"
  by (induction rows) (auto split: if_splits)

lemma status_of_set_complete:
  "status_of sid (set_complete sid' w) =
     (if sid = sid' \<and> status_of sid w \<noteq> None then Some ''complete'' else status_of sid w)"
proof (cases "find (\<lambda>r. s_id r = sid) (submissions w)")
  case None
  then show ?thesis
    by (simp add: status_of_def set_complete_def find_id_map_complete)
next
  case (Some x)
  then have "s_id x = sid" by (rule find_id_SomeD)
  with Some show ?thesis
    by (simp add: status_of_def set_complete_def find_id_map_complete)
qed

lemma status_of_recompute:
  "status_of sid (recompute_status sid' w) =
     (if 8 \<le> count_images sid' w \<and> sid = sid' \<and> status_of sid w \<noteq> None
      then Some ''complete'' else status_of sid w)"
  by (auto simp: recompute_status_def status_of_set_complete length_IMAGE_REQUIREMENTS)

lemma status_of_cong:
  "submissions w = submissions w' \<Longrightarrow> status_of sid w = status_of sid w'"
  by (simp add: status_of_def)

text \<open>One request leaves a status as it is or sets it to \<open>complete\<close>.\<close>

lemma step_status:
  assumes "status_of sid w = Some st"
  shows "status_of sid (snd (step e w)) = Some st
       \<or> status_of sid (snd (step e w)) = Some ''complete''"
proof (rule step_tables [OF refl, of e w])
  assume "submissions (snd (step e w)) = submissions w"
  then show ?thesis using assms by (simp add: status_of_def)
next
  fix row
  assume "submissions (snd (step e w)) = submissions w @ [row]"
  then show ?thesis using assms
    by (auto simp: status_of_def find_id_append split: option.splits)
next
  fix row
  let ?w3 = "w\<lparr>submission_images := submission_images w @ [row]\<rparr>"
  assume "submissions (snd (step e w)) = submissions (recompute_status (i_submission_id row) ?w3)"
  then have "status_of sid (snd (step e w)) = status_of sid (recompute_status (i_submission_id row) ?w3)"
    by (rule status_of_cong)
  moreover have "status_of sid ?w3 = Some st"
    using assms by (simp add: status_of_def)
  ultimately show ?thesis by (simp add: status_of_recompute)
qed

text \<open>
  Claim C6. Once the status of a submission is \<open>complete\<close>, it is \<open>complete\<close> after every
  further sequence of requests to the three endpoints: no request sets it back.
\<close>

theorem complete_is_final:
  assumes "status_of sid w = Some ''complete''"
  shows "status_of sid (run events w) = Some ''complete''"
  using assms
proof (induction events arbitrary: w)
  case Nil
  then show ?case by simp
next
  case (Cons e es)
  from step_status [OF Cons.prems, of e]
  have "status_of sid (snd (step e w)) = Some ''complete''" by blast
  then have "status_of sid (run es (snd (step e w))) = Some ''complete''"
    by (rule Cons.IH)
  then show ?case by simp
qed

theorem complete_is_final_witness:
  "status_of ''s1''
     (run [front_upload ''u9'', create_s1, GetReport report_env_ok ''s1'']
        (run (create_s1 # map front_upload
                [''u1'', ''u2'', ''u3'', ''u4'', ''u5'', ''u6'', ''u7'', ''u8''])
           initial_world)) = Some ''complete''"
proof -
  have h: "status_of ''s1''
     (run (create_s1 # map front_upload
             [''u1'', ''u2'', ''u3'', ''u4'', ''u5'', ''u6'', ''u7'', ''u8''])
        initial_world) = Some ''complete''"
    by code_simp
  show ?thesis by (rule complete_is_final [OF h])
qed

section \<open>Completion by count\<close>

lemma count_images_cong:
  "submission_images w = submission_images w' \<Longrightarrow> count_images sid w = count_images sid w'"
  by (simp add: count_images_def)

lemma count_images_append:
  "submission_images w' = submission_images w @ [row] \<Longrightarrow>
     count_images x w' = count_images x w + (if i_submission_id row = x then 1 else 0)"
  by (simp add: count_images_def)

lemma status_invariant_initial: "status_invariant initial_world"
  by (simp add: status_invariant_def initial_world_def)

lemma status_invariant_step:
  assumes inv: "status_invariant w"
  shows "status_invariant (snd (step e w))"
proof (rule step_tables [OF refl, of e w])
  assume "submissions (snd (step e w)) = submissions w"
     and "submission_images (snd (step e w)) = submission_images w"
  then show ?thesis
    using inv by (simp add: status_invariant_def count_images_def)
next
  fix row :: submission
  assume "s_status row = ''pending''"
     and "submissions (snd (step e w)) = submissions w @ [row]"
     and "submission_images (snd (step e w)) = submission_images w"
  then show ?thesis
    using inv by (simp add: status_invariant_def count_images_def)
next
  fix row :: submission_image
  let ?w' = "snd (step e w)"
  let ?sid = "i_submission_id row"
  let ?w3 = "w\<lparr>submission_images := submission_images w @ [row]\<rparr>"
  assume imgs: "submission_images ?w' = submission_images w @ [row]"
     and subs: "submissions ?w' = submissions (recompute_status ?sid ?w3)"
  have mono: "count_images x w \<le> count_images x ?w'" for x
    using count_images_append [OF imgs, of x] by simp
  have c3: "count_images x ?w3 = count_images x ?w'" for x
    using imgs by (simp add: count_images_def)
  show ?thesis
  proof (cases "length IMAGE_REQUIREMENTS \<le> count_images ?sid ?w'")
    case True
    then have "submissions ?w' =
      map (\<lambda>r. if s_id r = ?sid then r\<lparr>s_status := ''complete''\<rparr> else r) (submissions w)"
      unfolding subs by (simp add: recompute_status_def set_complete_def c3)
    then show ?thesis
      using inv True mono
      by (auto simp: status_invariant_def list_all_iff intro: order_trans)
  next
    case False
    then have "submissions ?w' = submissions w"
      unfolding subs by (simp add: recompute_status_def c3)
    then show ?thesis
      using inv mono
      by (auto simp: status_invariant_def list_all_iff intro: order_trans)
  qed
qed

lemma status_invariant_run: "status_invariant w \<Longrightarrow> status_invariant (run events w)"
  by (induction events arbitrary: w) (simp_all add: status_invariant_step)

lemma find_id_in_set: "find (\<lambda>r. s_id r = sid) rows = Some x \<Longrightarrow> x \<in> set rows"
  by (induction rows) (auto split: if_splits)

text \<open>
  Claim C1. In every state the service reaches from the empty database, after an upload
  for a submission has succeeded, the status of that submission is \<open>complete\<close> exactly when
  it has at least eight image rows. Neither the categories of the rows nor their verdicts
  enter: the statement holds for every category and every vision model.
\<close>

theorem status_complete_iff_count:
  assumes "w = run events initial_world"
      and "upload_image env sid t file w = (Inr r, w')"
      and "status_of sid w' = Some st"
  shows "st = ''complete'' \<longleftrightarrow> 8 \<le> count_images sid w'"
proof -
  have inv: "status_invariant w"
    unfolding assms(1) by (rule status_invariant_run) (rule status_invariant_initial)
  from upload_image_InrD(4) [OF assms(2)] obtain v where
    w': "w' = recompute_status sid
              (w\<lparr>files := (files w)(upload_filepath sid t (filename file) \<mapsto> contents file),
                 ai_calls := ai_calls w @ [(upload_filepath sid t (filename file), t)],
                 submission_images := submission_images w
                    @ [image_row (u_uuid env) sid t (upload_filepath sid t (filename file)) v]\<rparr>)"
    (is "w' = recompute_status sid ?w3")
    by blast
  have c: "count_images sid w' = count_images sid ?w3"
    unfolding w' by simp
  have ge: "count_images sid w \<le> count_images sid ?w3"
    by (simp add: count_images_def)
  have s3: "status_of sid ?w3 = status_of sid w"
    by (simp add: status_of_def)
  have st: "status_of sid w' =
     (if 8 \<le> count_images sid ?w3 \<and> status_of sid w \<noteq> None
      then Some ''complete'' else status_of sid w)"
    unfolding w' by (simp add: status_of_recompute s3)
  show ?thesis
  proof (cases "8 \<le> count_images sid ?w3")
    case True
    with st assms(3) have "st = ''complete''"
      by (auto split: if_splits)
    with True c show ?thesis by simp
  next
    case False
    with st assms(3) have "status_of sid w = Some st"
      by simp
    then obtain x where x: "find (\<lambda>r. s_id r = sid) (submissions w) = Some x"
      and sx: "s_status x = st"
      by (auto simp: status_of_def)
    have "x \<in> set (submissions w)" using x by (rule find_id_in_set)
    moreover have "s_id x = sid" using x by (rule find_id_SomeD)
    ultimately have "st = ''complete'' \<longrightarrow> 8 \<le> count_images sid w"
      using inv sx by (auto simp: status_invariant_def list_all_iff length_IMAGE_REQUIREMENTS)
    with False ge have "st \<noteq> ''complete''" by auto
    with False c show ?thesis by simp
  qed
qed

theorem status_complete_iff_count_witness:
  "status_of ''s1''
     (run (create_s1 # map front_upload [''u1'', ''u2'', ''u3'', ''u4'', ''u5'', ''u6'', ''u7''])
        initial_world) = Some ''pending''
   \<and> status_of ''s1''
     (snd (step (front_upload ''u8'')
        (run (create_s1 # map front_upload [''u1'', ''u2'', ''u3'', ''u4'', ''u5'', ''u6'', ''u7''])
           initial_world))) = Some ''complete''
   \<and> 8 \<le> count_images ''s1''
     (snd (step (front_upload ''u8'')
        (run (create_s1 # map front_upload [''u1'', ''u2'', ''u3'', ''u4'', ''u5'', ''u6'', ''u7''])
           initial_world)))"
proof -
  let ?evs = "create_s1 # map front_upload [''u1'', ''u2'', ''u3'', ''u4'', ''u5'', ''u6'', ''u7'']"
  let ?w = "run ?evs initial_world"
  let ?env = "env_raises ''u8'' (RuntimeError ''model not found'')"
  let ?u = "upload_image ?env ''s1'' ''front'' (photo ''front.jpg'' ''JPEG'') ?w"
  have s: "snd (step (front_upload ''u8'') ?w) = snd ?u"
    by (simp add: front_upload_def)
  have p: "status_of ''s1'' ?w = Some ''pending''"
    by code_simp
  have f: "fst ?u = Inr (ImageUploaded ''u8'' False ''Validation error: model not found''
                           ''/uploads/s1_front.jpg'')"
    by code_simp
  have u: "?u = (Inr (ImageUploaded ''u8'' False ''Validation error: model not found''
                        ''/uploads/s1_front.jpg''), snd ?u)"
    using f by (simp add: prod_eq_iff)
  have c: "status_of ''s1'' (snd ?u) = Some ''complete''"
    by code_simp
  have "''complete'' = ''complete'' \<longleftrightarrow> 8 \<le> count_images ''s1'' (snd ?u)"
    using refl u c by (rule status_complete_iff_count)
  then have "8 \<le> count_images ''s1'' (snd ?u)" by simp
  with p c s show ?thesis by simp
qed

section \<open>Stored files\<close>

lemma upload_filepath_ext:
  "snd (splitext name1) = snd (splitext name2) \<Longrightarrow>
     upload_filepath sid t name1 = upload_filepath sid t name2"
  by (simp add: upload_filepath_def upload_filename_def)

text \<open>
  Claim C9. Two successful uploads for the same submission and category whose file names
  have the same extension are stored under the same path, whatever happens in between:
  after the second upload the file at that path holds the bytes of the second upload,
  and the rows of both uploads, which have different ids, both name that path.
\<close>

theorem same_path_overwrites:
  assumes "snd (splitext (filename file1)) = snd (splitext (filename file2))"
      and "upload_image env1 sid t file1 w0 = (Inr r1, w1)"
      and "upload_image env2 sid t file2 (run events w1) = (Inr r2, w2)"
      and "path = upload_filepath sid t (filename file1)"
  shows "upload_filepath sid t (filename file2) = path
       \<and> files w1 path = Some (contents file1)
       \<and> files w2 path = Some (contents file2)
       \<and> (\<exists>row1 row2. row1 \<in> set (submission_images w2) \<and> row2 \<in> set (submission_images w2)
             \<and> i_id row1 = u_uuid env1 \<and> i_id row2 = u_uuid env2
             \<and> u_uuid env1 \<noteq> u_uuid env2
             \<and> i_image_path row1 = path \<and> i_image_path row2 = path)"
proof -
  have p2: "upload_filepath sid t (filename file2) = path"
    unfolding assms(4) using assms(1) by (rule upload_filepath_ext [symmetric])
  from upload_image_InrD(4) [OF assms(2)] obtain v1 where
    w1: "w1 = recompute_status sid
              (w0\<lparr>files := (files w0)(path \<mapsto> contents file1),
                 ai_calls := ai_calls w0 @ [(path, t)],
                 submission_images := submission_images w0
                    @ [image_row (u_uuid env1) sid t path v1]\<rparr>)"
    unfolding assms(4) by blast
  let ?row1 = "image_row (u_uuid env1) sid t path v1"
  let ?w = "run events w1"
  from upload_image_InrD(4) [OF assms(3)] obtain v2 where
    w2: "w2 = recompute_status sid
              (?w\<lparr>files := (files ?w)(path \<mapsto> contents file2),
                 ai_calls := ai_calls ?w @ [(path, t)],
                 submission_images := submission_images ?w
                    @ [image_row (u_uuid env2) sid t path v2]\<rparr>)"
    unfolding p2 by blast
  let ?row2 = "image_row (u_uuid env2) sid t path v2"
  have f1: "files w1 path = Some (contents file1)"
    unfolding w1 by simp
  have f2: "files w2 path = Some (contents file2)"
    unfolding w2 by simp
  have "?row1 \<in> set (submission_images w1)"
    unfolding w1 by simp
  moreover have "prefix (submission_images w1) (submission_images ?w)"
    by (rule run_images_grow)
  ultimately have in1: "?row1 \<in> set (submission_images ?w)"
    using set_mono_prefix by blast
  then have r1: "?row1 \<in> set (submission_images w2)"
    unfolding w2 by simp
  have r2: "?row2 \<in> set (submission_images w2)"
    unfolding w2 by simp
  have "\<not> list_ex (\<lambda>r. i_id r = u_uuid env2) (submission_images ?w)"
    by (rule upload_image_InrD(3) [OF assms(3)])
  with in1 have "i_id ?row1 \<noteq> u_uuid env2"
    by (auto simp: list_ex_iff)
  then have ne: "u_uuid env1 \<noteq> u_uuid env2"
    by (simp add: image_row_def)
  have ids: "i_id ?row1 = u_uuid env1" "i_id ?row2 = u_uuid env2"
    "i_image_path ?row1 = path" "i_image_path ?row2 = path"
    by (simp_all add: image_row_def)
  from r1 r2 ids ne have
    "\<exists>row1 row2. row1 \<in> set (submission_images w2) \<and> row2 \<in> set (submission_images w2)
             \<and> i_id row1 = u_uuid env1 \<and> i_id row2 = u_uuid env2
             \<and> u_uuid env1 \<noteq> u_uuid env2
             \<and> i_image_path row1 = path \<and> i_image_path row2 = path"
    by blast
  with p2 f1 f2 show ?thesis by blast
qed

theorem same_path_overwrites_witness:
  "files (snd (upload_image (env_says ''u2'' ''no'') ''s1'' ''front'' (photo ''second.jpg'' ''BBB'')
            (run [create_s1]
               (snd (upload_image (env_says ''u1'' ''yes'') ''s1'' ''front''
                       (photo ''first.jpg'' ''AAA'') initial_world)))))
     ''uploads/s1_front.jpg'' = Some ''BBB''
   \<and> map i_image_path
        (submission_images
           (snd (upload_image (env_says ''u2'' ''no'') ''s1'' ''front'' (photo ''second.jpg'' ''BBB'')
            (run [create_s1]
               (snd (upload_image (env_says ''u1'' ''yes'') ''s1'' ''front''
                       (photo ''first.jpg'' ''AAA'') initial_world))))))
     = [''uploads/s1_front.jpg'', ''uploads/s1_front.jpg'']"
proof -
  let ?e1 = "env_says ''u1'' ''yes''" and ?e2 = "env_says ''u2'' ''no''"
  let ?f1 = "photo ''first.jpg'' ''AAA''" and ?f2 = "photo ''second.jpg'' ''BBB''"
  let ?u1 = "upload_image ?e1 ''s1'' ''front'' ?f1 initial_world"
  let ?u2 = "upload_image ?e2 ''s1'' ''front'' ?f2 (run [create_s1] (snd ?u1))"
  have ext: "snd (splitext (filename ?f1)) = snd (splitext (filename ?f2))"
    by code_simp
  have a1: "fst ?u1 = Inr (ImageUploaded ''u1'' True ''Valid image'' ''/uploads/s1_front.jpg'')"
    by code_simp
  have a2: "fst ?u2 = Inr (ImageUploaded ''u2'' False ''no'' ''/uploads/s1_front.jpg'')"
    by code_simp
  have u1: "?u1 = (Inr (ImageUploaded ''u1'' True ''Valid image'' ''/uploads/s1_front.jpg''), snd ?u1)"
    using a1 by (simp add: prod_eq_iff)
  have u2: "?u2 = (Inr (ImageUploaded ''u2'' False ''no'' ''/uploads/s1_front.jpg''), snd ?u2)"
    using a2 by (simp add: prod_eq_iff)
  have p: "''uploads/s1_front.jpg'' = upload_filepath ''s1'' ''front'' (filename ?f1)"
    by code_simp
  from same_path_overwrites [OF ext u1 u2 p]
  have "files (snd ?u2) ''uploads/s1_front.jpg'' = Some (contents ?f2)"
    by blast
  then have 1: "files (snd ?u2) ''uploads/s1_front.jpg'' = Some ''BBB''"
    by (simp add: photo_def)
  have 2: "map i_image_path (submission_images (snd ?u2))
             = [''uploads/s1_front.jpg'', ''uploads/s1_front.jpg'']"
    by code_simp
  from 1 2 show ?thesis by simp
qed

section \<open>Examples of the classification rule\<close>

lemma classify_yes_sentence:
  "classify_content ''Yes, clearly visible'' = \<lparr>valid = True, reason = ''Valid image''\<rparr>"
  by code_simp

lemma classify_yes_padded:
  "classify_content '' yes '' = \<lparr>valid = True, reason = ''Valid image''\<rparr>"
  by code_simp

lemma classify_yes_upper:
  "classify_content ''YES'' = \<lparr>valid = True, reason = ''Valid image''\<rparr>"
  by code_simp

lemma classify_invalid_example:
  "classify_content ''invalid image'' = \<lparr>valid = True, reason = ''invalid image''\<rparr>"
  by code_simp

section \<open>Completion by count, for every submission\<close>

lemma create_submission_new_id:
  assumes "submissions (snd (create_submission new_uuid now data token w)) = submissions w @ [row]"
  shows "s_id row = new_uuid"
  using assms
  by (auto simp: create_submission_def insert_submission_def Let_def split: option.splits if_splits)

lemma status_matches_count_step:
  assumes inv: "status_matches_count w"
      and fresh: "fresh_submission_ids [e] w"
  shows "status_matches_count (snd (step e w))"
proof (rule step_tables [OF refl, of e w])
  assume "submissions (snd (step e w)) = submissions w"
     and "submission_images (snd (step e w)) = submission_images w"
  then show ?thesis
    using inv by (simp add: status_matches_count_def count_images_def)
next
  fix row :: submission
  assume p: "s_status row = ''pending''"
     and n: "\<not> list_ex (\<lambda>r. s_id r = s_id row) (submissions w)"
     and s: "submissions (snd (step e w)) = submissions w @ [row]"
     and i: "submission_images (snd (step e w)) = submission_images w"
  have z: "count_images (s_id row) w = 0"
  proof (cases e)
    case (CreateSubmission new_uuid now data token)
    with s have "s_id row = new_uuid"
      using create_submission_new_id by simp
    with fresh CreateSubmission show ?thesis by simp
  next
    case (UploadImage env sid t f)
    have "length (submission_images (snd (step e w))) = length (submission_images w)"
      using i by simp
    moreover have "length (submissions (snd (step e w))) = Suc (length (submissions w))"
      using s by simp
    ultimately show ?thesis
      using upload_image_tables [OF refl, of env sid t f w] UploadImage
      by (auto simp: recompute_status_def set_complete_def)
  next
    case (GetReport env sid)
    with s get_submission_report_tables [of env sid w] show ?thesis by simp
  qed
  have c: "count_images x (snd (step e w)) = count_images x w" for x
    using i by (simp add: count_images_def)
  have "\<not> length IMAGE_REQUIREMENTS \<le> count_images (s_id row) w"
    using z by (simp add: length_IMAGE_REQUIREMENTS)
  with p have "s_status row = ''complete'' \<longleftrightarrow>
                 length IMAGE_REQUIREMENTS \<le> count_images (s_id row) w"
    by simp
  with inv show ?thesis
    unfolding status_matches_count_def s c by simp
next
  fix row :: submission_image
  let ?w' = "snd (step e w)"
  let ?sid = "i_submission_id row"
  let ?w3 = "w\<lparr>submission_images := submission_images w @ [row]\<rparr>"
  let ?f = "\<lambda>r. if s_id r = ?sid then r\<lparr>s_status := ''complete''\<rparr> else r"
  let ?P = "\<lambda>w r. s_status r = ''complete'' \<longleftrightarrow>
                    length IMAGE_REQUIREMENTS \<le> count_images (s_id r) w"
  assume imgs: "submission_images ?w' = submission_images w @ [row]"
     and subs: "submissions ?w' = submissions (recompute_status ?sid ?w3)"
  have cnt: "count_images x ?w' = count_images x w + (if ?sid = x then 1 else 0)" for x
    by (rule count_images_append [OF imgs])
  have c3: "count_images x ?w3 = count_images x ?w'" for x
    using imgs by (simp add: count_images_def)
  have old: "?P w r" if "r \<in> set (submissions w)" for r
    using inv that unfolding status_matches_count_def list_all_iff by blast
  show ?thesis
  proof (cases "length IMAGE_REQUIREMENTS \<le> count_images ?sid ?w'")
    case True
    then have m: "submissions ?w' = map ?f (submissions w)"
      unfolding subs by (simp add: recompute_status_def set_complete_def c3)
    have "?P ?w' (?f r)" if r: "r \<in> set (submissions w)" for r
    proof (cases "s_id r = ?sid")
      case True
      with \<open>length IMAGE_REQUIREMENTS \<le> count_images ?sid ?w'\<close> show ?thesis by simp
    next
      case False
      then have "count_images (s_id r) ?w' = count_images (s_id r) w"
        using cnt [of "s_id r"] by simp
      with False old [OF r] show ?thesis by simp
    qed
    then have "\<forall>x \<in> ?f ` set (submissions w). ?P ?w' x"
      by blast
    then show ?thesis
      unfolding status_matches_count_def m list_all_iff set_map .
  next
    case False
    then have m: "submissions ?w' = submissions w"
      unfolding subs by (simp add: recompute_status_def c3)
    have "?P ?w' r" if r: "r \<in> set (submissions w)" for r
    proof (cases "s_id r = ?sid")
      case True
      have "count_images ?sid w \<le> count_images ?sid ?w'"
        using cnt [of ?sid] by simp
      with False have "\<not> length IMAGE_REQUIREMENTS \<le> count_images ?sid w" by simp
      with old [OF r] True have "s_status r \<noteq> ''complete''" by simp
      with False True show ?thesis by simp
    next
      case False
      then have "count_images (s_id r) ?w' = count_images (s_id r) w"
        using cnt [of "s_id r"] by simp
      with old [OF r] show ?thesis by simp
    qed
    then show ?thesis
      unfolding status_matches_count_def m list_all_iff by simp
  qed
qed

text \<open>
  When every new submission id is one that no image row names yet, as ids drawn by
  \<open>uuid4\<close> are, the equivalence of C1 holds for every submission in every state reached,
  not only for the submission of the last upload.
\<close>

lemma status_matches_count_run:
  "status_matches_count w \<Longrightarrow> fresh_submission_ids events w \<Longrightarrow>
     status_matches_count (run events w)"
proof (induction events arbitrary: w)
  case Nil
  then show ?case by simp
next
  case (Cons e es)
  from Cons.prems have "fresh_submission_ids [e] w" by simp
  with Cons.prems(1) have "status_matches_count (snd (step e w))"
    by (rule status_matches_count_step)
  moreover from Cons.prems have "fresh_submission_ids es (snd (step e w))" by simp
  ultimately show ?case using Cons.IH by simp
qed

lemma status_matches_count_initial: "status_matches_count initial_world"
  by (simp add: status_matches_count_def initial_world_def)

end
